theory Spec2Isabelle
  imports Main "HOL-Library.Sublist"
begin

section \<open>Python strings\<close>

text \<open>
  A Python \<^verbatim>\<open>str\<close> is a sequence of Unicode code points and \<^verbatim>\<open>len\<close> counts code
  points, so a string is a list of code points (natural numbers). Literals of the source
  are written \<open>u ''...''\<close>.
\<close>

type_synonym pychar = nat
type_synonym pystr = "pychar list"

definition u :: "string \<Rightarrow> pystr" where
  "u s = map of_char s"

abbreviation (input) NL :: pychar where "NL \<equiv> 10"
abbreviation (input) CR :: pychar where "CR \<equiv> 13"

text \<open>
  The whitespace of \<^verbatim>\<open>str.strip()\<close>, \<^verbatim>\<open>str.rstrip()\<close> and of \<^verbatim>\<open>\s\<close> in a
  \<^verbatim>\<open>re\<close> pattern over \<^verbatim>\<open>str\<close>: the code points CPython classifies as whitespace
  (U+0009..U+000D, U+001C..U+0020, U+0085, U+00A0, U+1680, U+2000..U+200A, U+2028, U+2029,
  U+202F, U+205F, U+3000).
\<close>

definition isspace :: "pychar \<Rightarrow> bool" where
  "isspace c \<longleftrightarrow>
     (9 \<le> c \<and> c \<le> 13) \<or> (28 \<le> c \<and> c \<le> 32) \<or> c = 133 \<or> c = 160 \<or> c = 5760
     \<or> (8192 \<le> c \<and> c \<le> 8202) \<or> c = 8232 \<or> c = 8233 \<or> c = 8239 \<or> c = 8287
     \<or> c = 12288"

definition py_lstrip :: "pystr \<Rightarrow> pystr" where
  "py_lstrip s = dropWhile isspace s"

definition py_rstrip :: "pystr \<Rightarrow> pystr" where
  "py_rstrip s = rev (dropWhile isspace (rev s))"

definition py_strip :: "pystr \<Rightarrow> pystr" where
  "py_strip s = py_rstrip (py_lstrip s)"

text \<open>\<^verbatim>\<open>s.split(sep)\<close> for a one-character separator: never an empty list.\<close>

fun py_split :: "pychar \<Rightarrow> pystr \<Rightarrow> pystr list" where
  "py_split sep [] = [[]]"
| "py_split sep (c # cs) =
     (if c = sep then [] # py_split sep cs
      else (case py_split sep cs of
              [] \<Rightarrow> [[c]]
            | l # ls \<Rightarrow> (c # l) # ls))"

text \<open>\<^verbatim>\<open>sep.join(parts)\<close>.\<close>

fun py_join :: "pystr \<Rightarrow> pystr list \<Rightarrow> pystr" where
  "py_join sep [] = []"
| "py_join sep [x] = x"
| "py_join sep (x # y # ys) = x @ sep @ py_join sep (y # ys)"

text \<open>\<^verbatim>\<open>s.replace(old, new)\<close> for a non-empty \<open>old\<close>: leftmost, non-overlapping.\<close>

function py_replace :: "pystr \<Rightarrow> pystr \<Rightarrow> pystr \<Rightarrow> pystr" where
  "py_replace old new [] = []"
| "py_replace old new (c # cs) =
     (if old \<noteq> [] \<and> prefix old (c # cs)
      then new @ py_replace old new (drop (length old) (c # cs))
      else c # py_replace old new cs)"
  by pat_completeness auto
termination
  by (relation "measure (\<lambda>(old, new, s). length s)") auto

text \<open>
  Slicing \<^verbatim>\<open>xs[i:j]\<close> with Python's treatment of negative and out-of-range bounds.
\<close>

definition slice_index :: "int \<Rightarrow> int \<Rightarrow> int" where
  "slice_index n i = (if i < 0 then max 0 (n + i) else min n i)"

definition py_slice :: "'a list \<Rightarrow> int \<Rightarrow> int \<Rightarrow> 'a list" where
  "py_slice xs i j =
     (let n = int (length xs); a = slice_index n i; b = slice_index n j
      in take (nat (b - a)) (drop (nat a) xs))"

text \<open>\<^verbatim>\<open>s.rfind(c)\<close> for one character: the last index of \<open>c\<close>, or -1.\<close>

fun py_rfind :: "pychar \<Rightarrow> pystr \<Rightarrow> int" where
  "py_rfind c [] = -1"
| "py_rfind c (x # xs) =
     (let r = py_rfind c xs
      in if r \<ge> 0 then r + 1 else if x = c then 0 else -1)"

text \<open>
  \<^verbatim>\<open>s.lower()\<close>. Only the ASCII letters are mapped: the result is compared with ASCII
  extensions only, and no code point outside ASCII lowers to a letter of any of them
  (the Kelvin sign lowers to k, which no listed extension contains, and U+0130 to an i
  followed by a combining dot), so the comparison comes out as in Python.
\<close>

definition lower_char :: "pychar \<Rightarrow> pychar" where
  "lower_char c = (if 65 \<le> c \<and> c \<le> 90 then c + 32 else c)"

definition py_lower :: "pystr \<Rightarrow> pystr" where
  "py_lower s = map lower_char s"

text \<open>
  \<^verbatim>\<open>os.path.splitext(p)[1]\<close> (posixpath): the suffix from the last dot, when that dot
  comes after the last slash and some character between them is not a dot.
\<close>

definition splitext_ext :: "pystr \<Rightarrow> pystr" where
  "splitext_ext p =
     (let sepIndex = py_rfind 47 p; dotIndex = py_rfind 46 p
      in if dotIndex > sepIndex \<and> list_ex (\<lambda>c. c \<noteq> 46) (py_slice p (sepIndex + 1) dotIndex)
         then drop (nat dotIndex) p else [])"

section \<open>Ingest: the chunker (src/ingest/chunker.py)\<close>

text \<open>
  The exceptions that reach a caller: \<^verbatim>\<open>ValueError\<close> and \<^verbatim>\<open>RuntimeError\<close> raised by the
  code itself, and \<open>ChromaError\<close> for an exception raised inside the \<^verbatim>\<open>chromadb\<close>
  library that the code does not catch.
\<close>

datatype error = ValueError | RuntimeError | ChromaError

definition TOKEN_TO_CHAR :: int where
  "TOKEN_TO_CHAR = 4"

text \<open>
  \<^verbatim>\<open>normalize_text\<close>: CRLF and CR become LF, every line is right-stripped, a run of
  blank lines keeps its first two, and the whole text is stripped. The loop over the
  lines carries \<open>blank_run\<close> and \<open>out_lines\<close>.
\<close>

fun collapse_blank :: "pystr list \<Rightarrow> nat \<Rightarrow> pystr list \<Rightarrow> pystr list" where
  "collapse_blank [] blank_run out_lines = out_lines"
| "collapse_blank (line # lines) blank_run out_lines =
     (let blank_run' = (if py_strip line = [] then blank_run + 1 else 0)
      in if blank_run' > 2 then collapse_blank lines blank_run' out_lines
         else collapse_blank lines blank_run' (out_lines @ [line]))"

definition normalize_text :: "pystr \<Rightarrow> pystr" where
  "normalize_text text =
     (let text1 = py_replace [CR] [NL] (py_replace [CR, NL] [NL] text);
          lines = map py_rstrip (py_split NL text1);
          out_lines = collapse_blank lines 0 []
      in py_strip (py_join [NL] out_lines))"

datatype file_type = Markdown | Code | Config | Notebook | Text

definition detect_file_type :: "pystr \<Rightarrow> file_type" where
  "detect_file_type path =
     (let ext = py_lower (splitext_ext path)
      in if ext \<in> set [u ''.md'', u ''.rst''] then Markdown
         else if ext \<in> set [u ''.py'', u ''.js'', u ''.ts'', u ''.java'', u ''.go'', u ''.rb'']
           then Code
         else if ext \<in> set [u ''.json'', u ''.yaml'', u ''.yml'', u ''.toml'', u ''.ini'']
           then Config
         else if ext = u ''.ipynb'' then Notebook
         else Text)"

text \<open>
  The \<^verbatim>\<open>while start < text_len\<close> loop of \<^verbatim>\<open>chunk_by_char\<close>. Nothing in the source
  bounds the number of iterations, so the loop is a partial function: \<open>None\<close> is the
  loop that never ends. It returns the windows it took, before stripping.
\<close>

partial_function (option) chunk_loop ::
  "pystr \<Rightarrow> int \<Rightarrow> int \<Rightarrow> int \<Rightarrow> pystr list \<Rightarrow> pystr list option" where
  "chunk_loop text chunk_size overlap start chunks =
     (if start < int (length text)
      then (let end = start + chunk_size;
                chunk = py_slice text start end;
                chunks' = chunks @ [chunk]
            in if end \<ge> int (length text) then Some chunks'
               else chunk_loop text chunk_size overlap (max 0 (end - overlap)) chunks')
      else Some chunks)"

declare chunk_loop.simps [code]

text \<open>
  The result of a call: \<open>None\<close> when it never returns, \<open>Some (Inl e)\<close> when it raises,
  \<open>Some (Inr v)\<close> when it returns \<open>v\<close>.
\<close>

type_synonym 'a result = "(error + 'a) option"

definition strip_chunks :: "pystr list \<Rightarrow> pystr list" where
  "strip_chunks chunks = map py_strip (filter (\<lambda>c. py_strip c \<noteq> []) chunks)"

definition chunk_by_char :: "pystr \<Rightarrow> int \<Rightarrow> int \<Rightarrow> pystr list result" where
  "chunk_by_char text chunk_size_tokens overlap_tokens =
     (if text = [] then Some (Inr [])
      else (let chunk_size = chunk_size_tokens * TOKEN_TO_CHAR;
                overlap = overlap_tokens * TOKEN_TO_CHAR
            in if chunk_size \<le> 0 then Some (Inl ValueError)
               else (case chunk_loop text chunk_size overlap 0 [] of
                       None \<Rightarrow> None
                     | Some chunks \<Rightarrow> Some (Inr (strip_chunks chunks)))))"

text \<open>
  \<^verbatim>\<open>split_code_by_defs\<close>. The starter patterns are \<^verbatim>\<open>^\s*(def |class )\<close> for Python
  and \<^verbatim>\<open>^\s*(function |class |const |let |var |export )\<close> otherwise, tried with
  \<^verbatim>\<open>re.match\<close> at the start of a line. Every alternative begins with a letter, so
  \<^verbatim>\<open>\s*\<close> can only stop after the whole leading whitespace: the line matches when what
  follows its leading whitespace begins with one of the keywords.
\<close>

definition starter_match :: "pystr \<Rightarrow> pystr \<Rightarrow> bool" where
  "starter_match lang line =
     (let rest = dropWhile isspace line;
          starters = (if lang = u ''python'' then [u ''def '', u ''class '']
                      else [u ''function '', u ''class '', u ''const '', u ''let '',
                            u ''var '', u ''export ''])
      in list_ex (\<lambda>k. prefix k rest) starters)"

fun split_blocks :: "pystr \<Rightarrow> pystr list \<Rightarrow> pystr list list \<Rightarrow> pystr list
  \<Rightarrow> pystr list list" where
  "split_blocks lang [] blocks current = (if current \<noteq> [] then blocks @ [current] else blocks)"
| "split_blocks lang (line # lines) blocks current =
     (if starter_match lang line \<and> current \<noteq> []
      then split_blocks lang lines (blocks @ [current]) [line]
      else split_blocks lang lines blocks (current @ [line]))"

definition split_code_by_defs :: "pystr \<Rightarrow> pystr \<Rightarrow> pystr list result" where
  "split_code_by_defs text lang =
     (if text = [] then Some (Inr [])
      else (let lines = py_split NL text;
                blocks = split_blocks lang lines [] [];
                block_texts = map (\<lambda>b. py_strip (py_join [NL] b))
                                (filter (\<lambda>b. py_strip (py_join [NL] b) \<noteq> []) blocks)
            in if length block_texts \<le> 1 then chunk_by_char text 1000 200
               else Some (Inr block_texts)))"

text \<open>
  \<^verbatim>\<open>re.split(r"(?m)^#{1,6}\s+", text)\<close>. A match starts at the beginning of a line
  (the start of the text, or right after a line feed), takes the whole run of \<open>#\<close>
  there, which must be 1 to 6 long and be followed by whitespace, and then all the
  whitespace that follows (line feeds too). \<open>heading_match\<close> gives the whitespace taken
  and the text after the match; \<open>md_split\<close> scans the text, \<open>bol\<close> telling whether the
  position is the beginning of a line, \<open>cur\<close> being the part collected since the last
  match.
\<close>

definition heading_match :: "pystr \<Rightarrow> (pystr \<times> pystr) option" where
  "heading_match s =
     (let hashes = takeWhile (\<lambda>c. c = 35) s;
          rest = dropWhile (\<lambda>c. c = 35) s;
          ws = takeWhile isspace rest
      in if 1 \<le> length hashes \<and> length hashes \<le> 6 \<and> ws \<noteq> []
         then Some (ws, dropWhile isspace rest) else None)"

lemma heading_match_shorter:
  "heading_match s = Some (ws, rest) \<Longrightarrow> length rest < length s"
proof -
  assume h: "heading_match s = Some (ws, rest)"
  let ?r = "dropWhile (\<lambda>c. c = 35) s"
  from h have ne: "takeWhile isspace ?r \<noteq> []" and r: "rest = dropWhile isspace ?r"
    by (auto simp: heading_match_def Let_def split: if_splits)
  have "length (takeWhile isspace ?r) + length (dropWhile isspace ?r) = length ?r"
    by (metis length_append takeWhile_dropWhile_id)
  with ne have "length (dropWhile isspace ?r) < length ?r"
    by (cases "takeWhile isspace ?r") auto
  moreover have "length ?r \<le> length s"
    by (rule length_dropWhile_le)
  ultimately show ?thesis using r by simp
qed

function md_split :: "bool \<Rightarrow> pystr \<Rightarrow> pystr \<Rightarrow> pystr list" where
  "md_split bol cur [] = [cur]"
| "md_split bol cur (c # cs) =
     (case (if bol then heading_match (c # cs) else None) of
        Some (ws, rest) \<Rightarrow> cur # md_split (last ws = NL) [] rest
      | None \<Rightarrow> md_split (c = NL) (cur @ [c]) cs)"
  by pat_completeness auto
termination
  by (relation "measure (\<lambda>(bol, cur, s). length s)")
     (auto dest: heading_match_shorter split: if_splits)

text \<open>
  A chunk as \<^verbatim>\<open>chunk_file\<close> emits it: the dictionary
  \<^verbatim>\<open>{"content": ..., "metadata": {"repo", "file_path", "file_type", "chunk_index"}}\<close>.
\<close>

record chunk_meta =
  repo :: pystr
  file_path :: pystr
  file_type :: file_type
  chunk_index :: int

record chunk =
  content :: pystr
  metadata :: chunk_meta

text \<open>
  The two loops \<^verbatim>\<open>for part in parts: if part.strip(): chunks.extend(chunk_by_char(...))\<close>
  (markdown) and \<^verbatim>\<open>for block in code_blocks: chunks.extend(chunk_by_char(...))\<close> (code).
  A call that raises or never returns ends the loop with that outcome.
\<close>

fun chunk_parts :: "pystr list \<Rightarrow> int \<Rightarrow> int \<Rightarrow> pystr list \<Rightarrow> pystr list result" where
  "chunk_parts [] chunk_size_tokens overlap_tokens chunks = Some (Inr chunks)"
| "chunk_parts (part # parts) chunk_size_tokens overlap_tokens chunks =
     (if py_strip part \<noteq> []
      then (case chunk_by_char part chunk_size_tokens overlap_tokens of
              None \<Rightarrow> None
            | Some (Inl e) \<Rightarrow> Some (Inl e)
            | Some (Inr cs) \<Rightarrow> chunk_parts parts chunk_size_tokens overlap_tokens (chunks @ cs))
      else chunk_parts parts chunk_size_tokens overlap_tokens chunks)"

fun chunk_blocks :: "pystr list \<Rightarrow> int \<Rightarrow> int \<Rightarrow> pystr list \<Rightarrow> pystr list result" where
  "chunk_blocks [] chunk_size_tokens overlap_tokens chunks = Some (Inr chunks)"
| "chunk_blocks (block # blocks) chunk_size_tokens overlap_tokens chunks =
     (case chunk_by_char block chunk_size_tokens overlap_tokens of
        None \<Rightarrow> None
      | Some (Inl e) \<Rightarrow> Some (Inl e)
      | Some (Inr cs) \<Rightarrow> chunk_blocks blocks chunk_size_tokens overlap_tokens (chunks @ cs))"

text \<open>
  The loop \<^verbatim>\<open>for i, chunk in enumerate(chunks)\<close>: \<open>i\<close> counts every chunk, also a
  skipped one. The parameters \<^verbatim>\<open>content\<close>, \<^verbatim>\<open>repo\<close> and \<^verbatim>\<open>file_path\<close> of
  \<^verbatim>\<open>chunk_file\<close> are written \<open>cont\<close>, \<open>rp\<close> and \<open>fp\<close>, their names being the fields
  of a chunk.
\<close>

fun emit_chunks :: "pystr \<Rightarrow> pystr \<Rightarrow> file_type \<Rightarrow> int \<Rightarrow> pystr list \<Rightarrow> chunk list
  \<Rightarrow> chunk list" where
  "emit_chunks rp fp ft i [] out = out"
| "emit_chunks rp fp ft i (c # cs) out =
     (if py_strip c = [] then emit_chunks rp fp ft (i + 1) cs out
      else emit_chunks rp fp ft (i + 1) cs
             (out @ [\<lparr>content = c,
                      metadata = \<lparr>repo = rp, file_path = fp, file_type = ft,
                                  chunk_index = i\<rparr>\<rparr>]))"

definition chunk_file :: "pystr \<Rightarrow> pystr \<Rightarrow> pystr \<Rightarrow> int \<Rightarrow> int \<Rightarrow> chunk list result" where
  "chunk_file cont rp fp chunk_size_tokens overlap_tokens =
     (let text = normalize_text cont;
          ft = detect_file_type fp;
          chunks =
            (if ft = Markdown
             then chunk_parts (md_split True [] text) chunk_size_tokens overlap_tokens []
             else if ft = Code
             then (let ext = py_lower (splitext_ext fp);
                       lang = (if ext = u ''.py'' then u ''python'' else u ''js'')
                   in case split_code_by_defs text lang of
                        None \<Rightarrow> None
                      | Some (Inl e) \<Rightarrow> Some (Inl e)
                      | Some (Inr code_blocks) \<Rightarrow>
                          chunk_blocks code_blocks chunk_size_tokens overlap_tokens [])
             else chunk_by_char text chunk_size_tokens overlap_tokens)
      in case chunks of
           None \<Rightarrow> None
         | Some (Inl e) \<Rightarrow> Some (Inl e)
         | Some (Inr cs) \<Rightarrow> Some (Inr (emit_chunks rp fp ft 0 cs [])))"

text \<open>
  The chain \<^verbatim>\<open>if file_type == "markdown": ... elif ... else: ...\<close> of \<^verbatim>\<open>chunk_file\<close>
  on its own, as \<open>chunk_file\<close> above computes its \<open>chunks\<close>; the proofs go through it.
\<close>

definition file_chunks :: "pystr \<Rightarrow> pystr \<Rightarrow> int \<Rightarrow> int \<Rightarrow> pystr list result" where
  "file_chunks cont fp chunk_size_tokens overlap_tokens =
     (let text = normalize_text cont;
          ft = detect_file_type fp
      in if ft = Markdown
         then chunk_parts (md_split True [] text) chunk_size_tokens overlap_tokens []
         else if ft = Code
         then (let ext = py_lower (splitext_ext fp);
                   lang = (if ext = u ''.py'' then u ''python'' else u ''js'')
               in case split_code_by_defs text lang of
                    None \<Rightarrow> None
                  | Some (Inl e) \<Rightarrow> Some (Inl e)
                  | Some (Inr code_blocks) \<Rightarrow>
                      chunk_blocks code_blocks chunk_size_tokens overlap_tokens [])
         else chunk_by_char text chunk_size_tokens overlap_tokens)"

text \<open>
  The windows \<^verbatim>\<open>chunk_by_char\<close> takes for its token parameters, before stripping, and
  the chunk emitted for the text \<open>c\<close> at position \<open>k\<close>.
\<close>

definition chunk_windows :: "pystr \<Rightarrow> int \<Rightarrow> int \<Rightarrow> pystr list option" where
  "chunk_windows text chunk_size_tokens overlap_tokens =
     chunk_loop text (chunk_size_tokens * TOKEN_TO_CHAR) (overlap_tokens * TOKEN_TO_CHAR) 0 []"

definition mk_chunk :: "pystr \<Rightarrow> pystr \<Rightarrow> file_type \<Rightarrow> nat \<times> pystr \<Rightarrow> chunk" where
  "mk_chunk rp fp ft = (\<lambda>(k, c). \<lparr>content = c,
     metadata = \<lparr>repo = rp, file_path = fp, file_type = ft, chunk_index = int k\<rparr>\<rparr>)"

section \<open>Python values and dictionaries\<close>

text \<open>
  The values the records carry: \<^verbatim>\<open>None\<close>, integers and strings. \<open>py_str\<close> is
  \<^verbatim>\<open>str(v)\<close>, which an f-string applies to each field. A dictionary with string keys is
  a map; \<open>dict_get d k dflt\<close> is \<^verbatim>\<open>d.get(k, default)\<close>.
\<close>

datatype pyval = PNone | PInt int | PStr pystr

fun str_nat :: "nat \<Rightarrow> pystr" where
  "str_nat n = (if n < 10 then [48 + n] else str_nat (n div 10) @ [48 + n mod 10])"

declare str_nat.simps [simp del]

definition str_int :: "int \<Rightarrow> pystr" where
  "str_int i = (if i < 0 then 45 # str_nat (nat (- i)) else str_nat (nat i))"

fun py_str :: "pyval \<Rightarrow> pystr" where
  "py_str PNone = u ''None''"
| "py_str (PInt i) = str_int i"
| "py_str (PStr s) = s"

type_synonym pydict = "pystr \<rightharpoonup> pyval"

definition dict_get :: "pydict \<Rightarrow> pystr \<Rightarrow> pyval \<Rightarrow> pyval" where
  "dict_get d k dflt = (case d k of None \<Rightarrow> dflt | Some v \<Rightarrow> v)"

section \<open>Ingest: the indexer (src/ingest/embeddings.py)\<close>

text \<open>
  A record as \<^verbatim>\<open>load_jsonl_chunks\<close> reads it: a dictionary of which the indexer reads the
  keys \<^verbatim>\<open>"metadata"\<close> (a dictionary) and \<^verbatim>\<open>"content"\<close>; \<open>None\<close> is an absent key.
  \<open>as_loaded\<close> is a chunk of the chunker after \<^verbatim>\<open>json.dumps\<close> (in \<^verbatim>\<open>chunk_folder\<close>) and
  \<^verbatim>\<open>json.loads\<close>.
\<close>

record jrec =
  rec_metadata :: "pydict option"
  rec_content :: "pyval option"



text \<open>\<^verbatim>\<open>batchify\<close>: the batches the generator yields; \<open>batch\<close> is the batch being filled.\<close>

fun batchify :: "'a list \<Rightarrow> int \<Rightarrow> 'a list \<Rightarrow> 'a list list" where
  "batchify [] batch_size batch = (if batch \<noteq> [] then [batch] else [])"
| "batchify (item # items) batch_size batch =
     (let batch' = batch @ [item]
      in if int (length batch') \<ge> batch_size then batch' # batchify items batch_size []
         else batchify items batch_size batch')"

text \<open>
  The loop \<^verbatim>\<open>for idx, rec in enumerate(chunks)\<close> that prepares \<open>ids\<close>, \<open>metadatas\<close> and
  \<open>docs\<close>; \<open>rid\<close> is the f-string \<^verbatim>\<open>f"{repo}::{file_path}::{chunk_index}"\<close> of its body,
  \<open>rec_meta\<close> is \<^verbatim>\<open>rec.get("metadata", {})\<close> and \<open>rec_doc\<close> is
  \<^verbatim>\<open>rec.get("content", "")\<close>.
\<close>

definition rec_meta :: "jrec \<Rightarrow> pydict" where
  "rec_meta rec = (case rec_metadata rec of None \<Rightarrow> Map.empty | Some m \<Rightarrow> m)"

definition rid :: "int \<Rightarrow> jrec \<Rightarrow> pystr" where
  "rid idx rec =
     (let meta = rec_meta rec;
          repo = dict_get meta (u ''repo'') (PStr []);
          file_path = dict_get meta (u ''file_path'') (PStr []);
          chunk_index = dict_get meta (u ''chunk_index'') (PInt idx)
      in py_str repo @ u ''::'' @ py_str file_path @ u ''::'' @ py_str chunk_index)"

definition rec_doc :: "jrec \<Rightarrow> pyval" where
  "rec_doc rec = (case rec_content rec of None \<Rightarrow> PStr [] | Some v \<Rightarrow> v)"

fun prepare :: "int \<Rightarrow> jrec list \<Rightarrow> pystr list \<Rightarrow> pydict list \<Rightarrow> pyval list
  \<Rightarrow> pystr list \<times> pydict list \<times> pyval list" where
  "prepare idx [] ids metadatas docs = (ids, metadatas, docs)"
| "prepare idx (rec # recs) ids metadatas docs =
     prepare (idx + 1) recs (ids @ [rid idx rec]) (metadatas @ [rec_meta rec])
       (docs @ [rec_doc rec])"

text \<open>
  What the run leaves behind: the calls made to \<^verbatim>\<open>collection.add\<close> (ids, documents,
  metadatas, embeddings) and the lines of \<^verbatim>\<open>embeddings_backup.jsonl\<close> in the target
  directory, each line the object \<^verbatim>\<open>{id, document, metadata, embedding}\<close>. The file is
  opened for appending.
\<close>

record 'e backup_line =
  bl_id :: pystr
  bl_document :: pyval
  bl_metadata :: pydict
  bl_embedding :: 'e

record 'e store_state =
  added :: "(pystr list \<times> pyval list \<times> pydict list \<times> 'e list) list"
  backup_log :: "'e backup_line list"

text \<open>
  What \<^verbatim>\<open>process_and_store\<close> calls outside this repository, as parameters of the run:
  whether \<^verbatim>\<open>import chromadb\<close> succeeds, whether \<^verbatim>\<open>chromadb.PersistentClient(path=...)\<close>,
  \<^verbatim>\<open>create_collection\<close> and \<^verbatim>\<open>get_collection\<close> on it succeed, whether \<^verbatim>\<open>chromadb.Client()\<close>
  and \<^verbatim>\<open>create_collection\<close> on it succeed, what \<^verbatim>\<open>embed_texts_sbert\<close> gives for a
  batch of texts (a list of vectors, or an exception), and whether a call of
  \<^verbatim>\<open>collection.add\<close> succeeds.
\<close>

record 'e backend =
  import_ok :: bool
  persistent_client_ok :: bool
  persistent_create_ok :: bool
  persistent_get_ok :: bool
  memory_client_ok :: bool
  memory_create_ok :: bool
  embed_texts :: "pyval list \<Rightarrow> error + 'e list"
  collection_add_ok :: "pystr list \<times> pyval list \<times> pydict list \<times> 'e list \<Rightarrow> bool"

text \<open>
  The set-up of the client and the collection. In the \<^verbatim>\<open>try\<close> the persistent client is
  opened and the collection created, or fetched when the creation raises; any exception
  there leads to the \<^verbatim>\<open>except\<close> branch, which sets \<^verbatim>\<open>fallback_backup\<close> and opens the
  in-memory client and creates the collection with no handler around them. The result is
  the value of \<^verbatim>\<open>fallback_backup\<close>, or the exception of the fallback branch.
\<close>

definition open_collection :: "'e backend \<Rightarrow> error + bool" where
  "open_collection be =
     (if persistent_client_ok be \<and> (persistent_create_ok be \<or> persistent_get_ok be)
      then Inr False
      else if memory_client_ok be \<and> memory_create_ok be then Inr True
      else Inl ChromaError)"

definition backup_lines :: "pystr list \<Rightarrow> pyval list \<Rightarrow> pydict list \<Rightarrow> 'e list
  \<Rightarrow> 'e backup_line list" where
  "backup_lines batch_ids batch_docs batch_metas embeddings =
     map (\<lambda>(i, d, m, e). \<lparr>bl_id = i, bl_document = d, bl_metadata = m, bl_embedding = e\<rparr>)
       (zip batch_ids (zip batch_docs (zip batch_metas embeddings)))"

text \<open>
  The loop over the batches. An exception of the embedding or of \<^verbatim>\<open>collection.add\<close> ends
  the run, and what earlier batches stored or logged stays. The pause after each batch is
  left out, and the file system is taken to accept the writes.
\<close>

fun store_batches :: "'e backend \<Rightarrow> bool \<Rightarrow> (pystr \<times> pyval \<times> pydict) list list
  \<Rightarrow> int \<Rightarrow> 'e store_state \<Rightarrow> (error + int) \<times> 'e store_state" where
  "store_batches be fallback_backup [] tot st = (Inr tot, st)"
| "store_batches be fallback_backup (doc_batch # batches) tot st =
     (let batch_ids = map fst doc_batch;
          batch_docs = map (fst \<circ> snd) doc_batch;
          batch_metas = map (snd \<circ> snd) doc_batch
      in case embed_texts be batch_docs of
           Inl e \<Rightarrow> (Inl e, st)
         | Inr embeddings \<Rightarrow>
             if \<not> fallback_backup
             then (if collection_add_ok be (batch_ids, batch_docs, batch_metas, embeddings)
                   then store_batches be fallback_backup batches
                          (tot + int (length batch_docs))
                          (st\<lparr>added := added st
                                 @ [(batch_ids, batch_docs, batch_metas, embeddings)]\<rparr>)
                   else (Inl ChromaError, st))
             else store_batches be fallback_backup batches (tot + int (length batch_docs))
                    (st\<lparr>backup_log := backup_log st
                           @ backup_lines batch_ids batch_docs batch_metas embeddings\<rparr>))"

text \<open>
  \<^verbatim>\<open>process_and_store\<close> on the records read from the JSONL file: the count returned or
  the exception raised, and the state the run leaves.
\<close>

definition process_and_store :: "'e backend \<Rightarrow> jrec list \<Rightarrow> int \<Rightarrow> 'e store_state
  \<Rightarrow> (error + int) \<times> 'e store_state" where
  "process_and_store be chunks batch_size st =
     (if \<not> import_ok be then (Inl RuntimeError, st)
      else (case open_collection be of
              Inl e \<Rightarrow> (Inl e, st)
            | Inr fallback_backup \<Rightarrow>
                (let (ids, metadatas, docs) = prepare 0 chunks [] [] [];
                     batches = batchify (zip ids (zip docs metadatas)) batch_size []
                 in store_batches be fallback_backup batches 0 st)))"





section \<open>Retrieval: the context assembler (src/retrieval/retriever.py)\<close>

text \<open>
  A retrieval result, of which \<^verbatim>\<open>build_context\<close> reads \<^verbatim>\<open>r.get("metadata", {}) or {}\<close>
  and \<^verbatim>\<open>r.get("document", "")\<close>. For the metadata \<open>None\<close> stands for an absent key and
  for the value \<^verbatim>\<open>None\<close> (both give the empty dictionary); for the document \<open>None\<close> is
  an absent key.
\<close>

record result_row =
  res_metadata :: "pydict option"
  res_document :: "pyval option"

definition render_block :: "int \<Rightarrow> result_row \<Rightarrow> pystr" where
  "render_block i r =
     (let meta = (case res_metadata r of None \<Rightarrow> Map.empty | Some m \<Rightarrow> m);
          file_path = dict_get meta (u ''file_path'') (PStr []);
          repo = dict_get meta (u ''repo'') (PStr []);
          chunk_index = dict_get meta (u ''chunk_index'') PNone;
          header = u ''[CTX #'' @ str_int i @ u ''] '' @ py_str repo @ u '' :: ''
                     @ py_str file_path @ u '' :: chunk '' @ py_str chunk_index;
          body = (case res_document r of None \<Rightarrow> PStr [] | Some v \<Rightarrow> v)
      in py_strip (header @ [NL] @ py_str body))"

fun build_loop :: "int \<Rightarrow> result_row list \<Rightarrow> int \<Rightarrow> pystr list \<Rightarrow> int \<Rightarrow> pystr list" where
  "build_loop max_chars [] i parts tot = parts"
| "build_loop max_chars (r # rs) i parts tot =
     (let block = render_block i r
      in if tot + int (length block) + 2 > max_chars then parts
         else build_loop max_chars rs (i + 1) (parts @ [block])
                (tot + (int (length block) + 2)))"

definition separator :: pystr where
  "separator = [NL, NL] @ u ''---'' @ [NL, NL]"

definition build_context :: "result_row list \<Rightarrow> int \<Rightarrow> pystr" where
  "build_context results max_chars = py_join separator (build_loop max_chars results 1 [] 0)"

text \<open>
  The rendered blocks of all the results in rank order, numbered from \<open>i\<close>, and the
  budget the loop charges for a list of blocks: 2 characters more than each block.
\<close>

fun blocks_from :: "int \<Rightarrow> result_row list \<Rightarrow> pystr list" where
  "blocks_from i [] = []"
| "blocks_from i (r # rs) = render_block i r # blocks_from (i + 1) rs"

definition charged :: "pystr list \<Rightarrow> int" where
  "charged bs = (\<Sum>b\<leftarrow>bs. int (length b) + 2)"

text \<open>A result row as the vector store returns it, for the examples below.\<close>

definition sample_row :: result_row where
  "sample_row =
     \<lparr>res_metadata = Some [u ''repo'' \<mapsto> PStr (u ''r''), u ''file_path'' \<mapsto> PStr (u ''a.py''),
                           u ''chunk_index'' \<mapsto> PInt 0],
      res_document = Some (PStr (u ''x''))\<rparr>"

section \<open>Generation: the retry loop (src/generation/llm.py)\<close>

text \<open>
  The loop around \<^verbatim>\<open>requests.post\<close>. The backend is a parameter: \<open>post k\<close> is the outcome
  of the \<open>k\<close>-th call, a response with its status code or an exception of the call
  itself. An attempt fails when the call raises, when the status is one of 429, 500, 502,
  503, 504 (the \<^verbatim>\<open>RuntimeError\<close> raised in the \<^verbatim>\<open>try\<close>) or when \<^verbatim>\<open>raise_for_status\<close>
  raises (a status from 400 to 599); \<^verbatim>\<open>except Exception\<close> catches all three. The loop
  returns its outcome, the number of calls made and the sleeps taken, in seconds
  (\<^verbatim>\<open>backoff\<close> starts at 1.0 and doubles after each sleep).
\<close>

datatype outcome = Response int | PostError

definition attempt_fails :: "outcome \<Rightarrow> bool" where
  "attempt_fails out =
     (case out of
        PostError \<Rightarrow> True
      | Response status \<Rightarrow> status \<in> set [429, 500, 502, 503, 504]
                             \<or> (400 \<le> status \<and> status < 600))"

function retry_loop :: "(nat \<Rightarrow> outcome) \<Rightarrow> nat \<Rightarrow> nat \<Rightarrow> nat list
  \<Rightarrow> (error + outcome) \<times> nat \<times> nat list" where
  "retry_loop post attempts backoff sleeps =
     (let attempts' = attempts + 1;
          out = post attempts'
      in if attempt_fails out
         then (if attempts' \<ge> 3 then (Inl RuntimeError, attempts', sleeps)
               else retry_loop post attempts' (backoff * 2) (sleeps @ [backoff]))
         else (Inr out, attempts', sleeps))"
  by pat_completeness auto
termination
  by (relation "measure (\<lambda>(post, attempts, backoff, sleeps). 3 - attempts)") auto

declare retry_loop.simps [simp del]

definition call_backend :: "(nat \<Rightarrow> outcome) \<Rightarrow> (error + outcome) \<times> nat \<times> nat list" where
  "call_backend post = retry_loop post 0 1 []"

section \<open>Generation: the context budget (src/generation/prompt.py)\<close>

text \<open>
  Python integers are unbounded, so every integer of the source is an \<open>int\<close>.
  \<^verbatim>\<open>TOKEN_TO_CHAR = 4\<close> is the same module constant in prompt.py and in chunker.py.
\<close>

text \<open>
  \<^verbatim>\<open>
  def allowed_context_chars(n_ctx, max_answer_tokens, prompt_overhead_tokens=400):
      ctx_tokens_for_context = max(256, n_ctx - max_answer_tokens - prompt_overhead_tokens)
      return max(1024, ctx_tokens_for_context * TOKEN_TO_CHAR)
  \<close>
  The default argument is written out: \<open>allowed_context_chars\<close> takes all three
  parameters, \<open>allowed_context_chars2\<close> is the two-argument call of the callers.
\<close>

definition allowed_context_chars :: "int \<Rightarrow> int \<Rightarrow> int \<Rightarrow> int" where
  "allowed_context_chars n_ctx max_answer_tokens prompt_overhead_tokens =
     (let ctx_tokens_for_context = max 256 (n_ctx - max_answer_tokens - prompt_overhead_tokens)
      in max 1024 (ctx_tokens_for_context * TOKEN_TO_CHAR))"

definition allowed_context_chars2 :: "int \<Rightarrow> int \<Rightarrow> int" where
  "allowed_context_chars2 n_ctx max_answer_tokens =
     allowed_context_chars n_ctx max_answer_tokens 400"

section \<open>Stripping, slicing and the chunk loop\<close>

lemma py_rstrip_length: "length (py_rstrip s) \<le> length s"
  unfolding py_rstrip_def using length_dropWhile_le [of isspace "rev s"] by simp

lemma py_strip_length: "length (py_strip s) \<le> length s"
proof -
  have "length (py_strip s) \<le> length (dropWhile isspace s)"
    unfolding py_strip_def py_lstrip_def by (rule py_rstrip_length)
  also have "\<dots> \<le> length s" by (rule length_dropWhile_le)
  finally show ?thesis .
qed

lemma last_dropWhile_keep: "dropWhile P xs \<noteq> [] \<Longrightarrow> last (dropWhile P xs) = last xs"
  by (induction xs) (auto split: if_splits)

lemma py_strip_ends:
  assumes "py_strip s \<noteq> []"
  shows "\<not> isspace (hd (py_strip s))" and "\<not> isspace (last (py_strip s))"
proof -
  let ?t = "dropWhile isspace s"
  let ?r = "dropWhile isspace (rev ?t)"
  have eq: "py_strip s = rev ?r"
    by (simp add: py_strip_def py_lstrip_def py_rstrip_def)
  with assms have r: "?r \<noteq> []" by simp
  from r have "rev ?t \<noteq> []" by (metis dropWhile.simps(1))
  then have t: "?t \<noteq> []" by (simp only: rev_is_Nil_conv not_False_eq_True)
  have "last (py_strip s) = hd ?r" using r eq by (simp add: last_rev)
  moreover have "\<not> isspace (hd ?r)" using r by (rule hd_dropWhile)
  ultimately show "\<not> isspace (last (py_strip s))" by simp
  have "hd (py_strip s) = last ?r" using r eq by (simp add: hd_rev)
  also have "\<dots> = last (rev ?t)" using r by (rule last_dropWhile_keep)
  also have "\<dots> = hd ?t" using t by (simp add: last_rev)
  finally have "hd (py_strip s) = hd ?t" .
  moreover have "\<not> isspace (hd ?t)" using t by (rule hd_dropWhile)
  ultimately show "\<not> isspace (hd (py_strip s))" by simp
qed

lemma py_strip_idem: "py_strip (py_strip s) = py_strip s"
proof (cases "py_strip s = []")
  case True
  have "py_strip [] = []" by (simp add: py_strip_def py_lstrip_def py_rstrip_def)
  with True show ?thesis by simp
next
  case False
  let ?x = "py_strip s"
  from py_strip_ends [OF False] have h: "\<not> isspace (hd ?x)" and l: "\<not> isspace (last ?x)"
    by simp_all
  have 1: "dropWhile isspace ?x = ?x" using h by (simp add: dropWhile_eq_self_iff)
  have "hd (rev ?x) = last ?x" using False by (simp add: hd_rev)
  with l have 2: "dropWhile isspace (rev ?x) = rev ?x" by (simp add: dropWhile_eq_self_iff)
  show ?thesis
    unfolding py_strip_def [of ?x] py_lstrip_def py_rstrip_def 1 2 by simp
qed

lemma strip_chunks_elems:
  "c \<in> set (strip_chunks ws) \<Longrightarrow> py_strip c = c \<and> c \<noteq> [] \<and> (\<exists>w\<in>set ws. length c \<le> length w)"
  unfolding strip_chunks_def using py_strip_idem py_strip_length by auto

lemma py_slice_length:
  assumes "0 \<le> i" and "i \<le> j"
  shows "int (length (py_slice xs i j)) \<le> j - i"
  using assms by (auto simp: py_slice_def slice_index_def Let_def min_def max_def)

lemma py_slice_to_end:
  assumes "0 \<le> i" and "int (length xs) \<le> j"
  shows "py_slice xs i j = drop (nat i) xs"
  using assms by (auto simp: py_slice_def slice_index_def Let_def min_def max_def)

lemma chunk_loop_returns:
  assumes cs: "0 < cs" and ov: "ov < cs"
  shows "0 \<le> start \<Longrightarrow>
    \<exists>new. chunk_loop t cs ov start chunks = Some (chunks @ new)
      \<and> (\<forall>w\<in>set new. int (length w) \<le> cs)
      \<and> (0 \<le> ov \<and> start < int (length t)
           \<longrightarrow> new \<noteq> [] \<and> (\<exists>s<length t. last new = drop s t))"
proof (induction "nat (int (length t) - start)" arbitrary: start chunks rule: less_induct)
  case less
  show ?case
  proof (cases "start < int (length t)")
    case False
    then have "chunk_loop t cs ov start chunks = Some (chunks @ [])"
      by (subst chunk_loop.simps) simp
    with False show ?thesis by fastforce
  next
    case True
    let ?end = "start + cs"
    let ?w = "py_slice t start ?end"
    have wlen: "int (length ?w) \<le> cs"
      using py_slice_length [of start "?end" t] less.prems cs by simp
    show ?thesis
    proof (cases "int (length t) \<le> ?end")
      case stop: True
      have "chunk_loop t cs ov start chunks = Some (chunks @ [?w])"
        using True stop by (subst chunk_loop.simps) (simp add: Let_def)
      moreover have "?w = drop (nat start) t"
        using less.prems stop by (rule py_slice_to_end)
      moreover have "nat start < length t" using True less.prems by simp
      ultimately show ?thesis using wlen by fastforce
    next
      case go: False
      let ?s' = "max 0 (?end - ov)"
      have dec: "nat (int (length t) - ?s') < nat (int (length t) - start)"
        using True ov less.prems by simp
      have nonneg: "0 \<le> ?s'" by simp
      from less.hyps [OF dec nonneg, of "chunks @ [?w]"]
      obtain new where
        r: "chunk_loop t cs ov ?s' (chunks @ [?w]) = Some ((chunks @ [?w]) @ new)"
        and b: "\<forall>w\<in>set new. int (length w) \<le> cs"
        and l: "0 \<le> ov \<and> ?s' < int (length t)
                 \<longrightarrow> new \<noteq> [] \<and> (\<exists>s<length t. last new = drop s t)"
        by blast
      have "chunk_loop t cs ov start chunks = Some (chunks @ (?w # new))"
        using True go r by (subst chunk_loop.simps) (simp add: Let_def)
      moreover have "\<forall>w\<in>set (?w # new). int (length w) \<le> cs"
        using wlen b by simp
      moreover have "0 \<le> ov \<longrightarrow> (\<exists>s<length t. last (?w # new) = drop s t)"
      proof
        assume "0 \<le> ov"
        moreover from this have "?s' < int (length t)"
          using True go less.prems cs by linarith
        ultimately have "0 \<le> ov \<and> ?s' < int (length t)" by blast
        with l show "\<exists>s<length t. last (?w # new) = drop s t" by auto
      qed
      ultimately show ?thesis by blast
    qed
  qed
qed

lemma chunk_loop_stuck:
  assumes "chunk_loop t cs ov start chunks = Some r"
  shows "\<not> (start = 0 \<and> 0 < cs \<and> cs \<le> ov \<and> cs < int (length t))"
proof (rule chunk_loop.raw_induct
    [where P = "\<lambda>tx c v s ch y. \<not> (s = 0 \<and> 0 < c \<and> c \<le> v \<and> c < int (length tx))",
     OF _ assms])
  fix f :: "pystr \<Rightarrow> int \<Rightarrow> int \<Rightarrow> int \<Rightarrow> pystr list \<Rightarrow> pystr list option"
  fix tx c v s ch y
  assume IH: "\<And>tx c v s ch y. f tx c v s ch = Some y
                \<Longrightarrow> \<not> (s = 0 \<and> 0 < c \<and> c \<le> v \<and> c < int (length tx))"
    and step: "(if s < int (length tx)
                then let end = s + c; chunk = py_slice tx s end; chunks' = ch @ [chunk]
                     in if end \<ge> int (length tx) then Some chunks'
                        else f tx c v (max 0 (end - v)) chunks'
                else Some ch) = Some y"
  show "\<not> (s = 0 \<and> 0 < c \<and> c \<le> v \<and> c < int (length tx))"
  proof
    assume a: "s = 0 \<and> 0 < c \<and> c \<le> v \<and> c < int (length tx)"
    then have m: "max 0 (s + c - v) = 0" by simp
    from a have lt: "s < int (length tx)" "\<not> (s + c \<ge> int (length tx))" by auto
    have "f tx c v (max 0 (s + c - v)) (ch @ [py_slice tx s (s + c)]) = Some y"
      using step by (simp only: lt if_True if_False Let_def)
    then have "f tx c v 0 (ch @ [py_slice tx s (s + c)]) = Some y"
      by (simp only: m)
    from IH [OF this] a show False by simp
  qed
qed

lemma chunk_loop_diverges:
  assumes "0 < cs" and "cs \<le> ov" and "cs < int (length t)"
  shows "chunk_loop t cs ov 0 chunks = None"
proof (cases "chunk_loop t cs ov 0 chunks")
  case None
  then show ?thesis .
next
  case (Some r)
  from chunk_loop_stuck [OF this] assms show ?thesis by simp
qed


lemma chunk_by_char_elems:
  assumes "chunk_by_char t cst ovt = Some (Inr cs)" and "c \<in> set cs"
  shows "py_strip c = c \<and> c \<noteq> []"
  using assms strip_chunks_elems
  by (auto simp: chunk_by_char_def Let_def split: if_splits option.splits)

lemma chunk_by_char_returns:
  assumes "0 < cst" and "ovt < cst"
  shows "\<exists>cs. chunk_by_char t cst ovt = Some (Inr cs)
           \<and> (\<forall>c\<in>set cs. int (length c) \<le> cst * 4)"
proof (cases "t = []")
  case True
  then show ?thesis by (simp add: chunk_by_char_def)
next
  case False
  from assms have "0 < cst * 4" and "ovt * 4 < cst * 4" by simp_all
  from chunk_loop_returns [OF this, of 0 t "[]"]
  obtain ws where r: "chunk_loop t (cst * 4) (ovt * 4) 0 [] = Some ws"
    and b: "\<forall>w\<in>set ws. int (length w) \<le> cst * 4"
    by auto
  have "chunk_by_char t cst ovt = Some (Inr (strip_chunks ws))"
    using False assms r by (simp add: chunk_by_char_def TOKEN_TO_CHAR_def Let_def)
  moreover have "\<forall>c\<in>set (strip_chunks ws). int (length c) \<le> cst * 4"
  proof
    fix c assume "c \<in> set (strip_chunks ws)"
    then obtain w where "w \<in> set ws" and "length c \<le> length w"
      using strip_chunks_elems by blast
    with b show "int (length c) \<le> cst * 4" by fastforce
  qed
  ultimately show ?thesis by blast
qed

lemma chunk_parts_elems:
  "chunk_parts ps cst ovt acc = Some (Inr cs) \<Longrightarrow>
   \<forall>c\<in>set acc. py_strip c = c \<and> c \<noteq> [] \<Longrightarrow>
   \<forall>c\<in>set cs. py_strip c = c \<and> c \<noteq> []"
proof (induction ps arbitrary: acc)
  case Nil
  then show ?case by simp
next
  case (Cons p ps)
  show ?case
  proof (cases "py_strip p \<noteq> []")
    case False
    with Cons.prems have "chunk_parts ps cst ovt acc = Some (Inr cs)" by simp
    from Cons.IH [OF this Cons.prems(2)] show ?thesis .
  next
    case True
    with Cons.prems(1) obtain ns where n: "chunk_by_char p cst ovt = Some (Inr ns)"
      and r: "chunk_parts ps cst ovt (acc @ ns) = Some (Inr cs)"
      by (auto split: option.splits sum.splits)
    have "\<forall>c\<in>set (acc @ ns). py_strip c = c \<and> c \<noteq> []"
      using Cons.prems(2) chunk_by_char_elems [OF n] by auto
    from Cons.IH [OF r this] show ?thesis .
  qed
qed

lemma chunk_blocks_elems:
  "chunk_blocks bs cst ovt acc = Some (Inr cs) \<Longrightarrow>
   \<forall>c\<in>set acc. py_strip c = c \<and> c \<noteq> [] \<Longrightarrow>
   \<forall>c\<in>set cs. py_strip c = c \<and> c \<noteq> []"
proof (induction bs arbitrary: acc)
  case Nil
  then show ?case by simp
next
  case (Cons b bs)
  from Cons.prems(1) obtain ns where n: "chunk_by_char b cst ovt = Some (Inr ns)"
    and r: "chunk_blocks bs cst ovt (acc @ ns) = Some (Inr cs)"
    by (auto split: option.splits sum.splits)
  have "\<forall>c\<in>set (acc @ ns). py_strip c = c \<and> c \<noteq> []"
    using Cons.prems(2) chunk_by_char_elems [OF n] by auto
  from Cons.IH [OF r this] show ?case .
qed

lemma chunk_parts_returns:
  assumes "0 < cst" and "ovt < cst"
  shows "\<forall>c\<in>set acc. int (length c) \<le> cst * 4 \<Longrightarrow>
    \<exists>cs. chunk_parts ps cst ovt acc = Some (Inr cs)
       \<and> (\<forall>c\<in>set cs. int (length c) \<le> cst * 4)"
proof (induction ps arbitrary: acc)
  case Nil
  then show ?case by simp
next
  case (Cons p ps)
  from chunk_by_char_returns [OF assms, of p]
  obtain ns where n: "chunk_by_char p cst ovt = Some (Inr ns)"
    and b: "\<forall>c\<in>set ns. int (length c) \<le> cst * 4" by blast
  have "\<forall>c\<in>set (acc @ ns). int (length c) \<le> cst * 4" using Cons.prems b by auto
  from Cons.IH [OF this] Cons.IH [OF Cons.prems] n show ?case by simp
qed

lemma chunk_blocks_returns:
  assumes "0 < cst" and "ovt < cst"
  shows "\<forall>c\<in>set acc. int (length c) \<le> cst * 4 \<Longrightarrow>
    \<exists>cs. chunk_blocks bs cst ovt acc = Some (Inr cs)
       \<and> (\<forall>c\<in>set cs. int (length c) \<le> cst * 4)"
proof (induction bs arbitrary: acc)
  case Nil
  then show ?case by simp
next
  case (Cons b bs)
  from chunk_by_char_returns [OF assms, of b]
  obtain ns where n: "chunk_by_char b cst ovt = Some (Inr ns)"
    and b: "\<forall>c\<in>set ns. int (length c) \<le> cst * 4" by blast
  have "\<forall>c\<in>set (acc @ ns). int (length c) \<le> cst * 4" using Cons.prems b by auto
  from Cons.IH [OF this] n show ?case by simp
qed

lemma split_code_by_defs_returns: "\<exists>bs. split_code_by_defs t lang = Some (Inr bs)"
proof -
  obtain cs where "chunk_by_char t 1000 200 = Some (Inr cs)"
    using chunk_by_char_returns [of 1000 200 t] by auto
  then show ?thesis by (simp add: split_code_by_defs_def Let_def)
qed

lemma emit_chunks_enumerate:
  "\<forall>c\<in>set cs. py_strip c \<noteq> [] \<Longrightarrow>
   emit_chunks rp fp ft (int n) cs out = out @ map (mk_chunk rp fp ft) (enumerate n cs)"
proof (induction cs arbitrary: n out)
  case Nil
  then show ?case by simp
next
  case (Cons c cs)
  let ?o = "out @ [mk_chunk rp fp ft (n, c)]"
  from Cons.prems have ne: "py_strip c \<noteq> []" and rest: "\<forall>c\<in>set cs. py_strip c \<noteq> []"
    by simp_all
  have "emit_chunks rp fp ft (int n) (c # cs) out = emit_chunks rp fp ft (int (Suc n)) cs ?o"
    using ne by (simp add: mk_chunk_def add.commute)
  also have "\<dots> = ?o @ map (mk_chunk rp fp ft) (enumerate (Suc n) cs)"
    by (rule Cons.IH [OF rest])
  finally show ?case by simp
qed

lemma chunk_file_unfold:
  "chunk_file cont rp fp cst ovt =
     (case file_chunks cont fp cst ovt of
        None \<Rightarrow> None
      | Some (Inl e) \<Rightarrow> Some (Inl e)
      | Some (Inr cs) \<Rightarrow> Some (Inr (emit_chunks rp fp (detect_file_type fp) 0 cs [])))"
  unfolding chunk_file_def file_chunks_def Let_def by (rule refl)

lemma file_chunks_elems:
  assumes "file_chunks cont fp cst ovt = Some (Inr cs)"
  shows "\<forall>c\<in>set cs. py_strip c = c \<and> c \<noteq> []"
proof (cases "detect_file_type fp = Markdown")
  case True
  with assms show ?thesis using chunk_parts_elems [of _ cst ovt "[]" cs]
    by (simp add: file_chunks_def Let_def)
next
  case md: False
  show ?thesis
  proof (cases "detect_file_type fp = Code")
    case True
    with md assms obtain bs where "chunk_blocks bs cst ovt [] = Some (Inr cs)"
      by (auto simp: file_chunks_def Let_def split: option.splits sum.splits if_splits)
    then show ?thesis using chunk_blocks_elems [of bs cst ovt "[]" cs] by simp
  next
    case False
    with md assms have "chunk_by_char (normalize_text cont) cst ovt = Some (Inr cs)"
      by (simp add: file_chunks_def Let_def)
    then show ?thesis using chunk_by_char_elems by blast
  qed
qed

lemma file_chunks_returns:
  assumes "0 < cst" and "ovt < cst"
  shows "\<exists>cs. file_chunks cont fp cst ovt = Some (Inr cs)
           \<and> (\<forall>c\<in>set cs. int (length c) \<le> cst * 4)"
proof (cases "detect_file_type fp = Markdown")
  case True
  then show ?thesis using chunk_parts_returns [OF assms, of "[]"]
    by (simp add: file_chunks_def Let_def)
next
  case md: False
  show ?thesis
  proof (cases "detect_file_type fp = Code")
    case True
    let ?lang = "if py_lower (splitext_ext fp) = u ''.py'' then u ''python'' else u ''js''"
    obtain bs where bs: "split_code_by_defs (normalize_text cont) ?lang = Some (Inr bs)"
      using split_code_by_defs_returns by blast
    have "file_chunks cont fp cst ovt = chunk_blocks bs cst ovt []"
      using True md bs unfolding file_chunks_def Let_def by simp
    then show ?thesis using chunk_blocks_returns [OF assms, of "[]" bs] by simp
  next
    case False
    with md show ?thesis using chunk_by_char_returns [OF assms]
      by (simp add: file_chunks_def Let_def)
  qed
qed

lemma chunk_file_shape:
  assumes "chunk_file cont rp fp cst ovt = Some (Inr out)"
  shows "\<exists>cs. file_chunks cont fp cst ovt = Some (Inr cs)
            \<and> out = map (mk_chunk rp fp (detect_file_type fp)) (enumerate 0 cs)"
proof -
  from assms obtain cs where cs: "file_chunks cont fp cst ovt = Some (Inr cs)"
    and out: "out = emit_chunks rp fp (detect_file_type fp) 0 cs []"
    by (auto simp: chunk_file_unfold split: option.splits sum.splits)
  from file_chunks_elems [OF cs] have "\<forall>c\<in>set cs. py_strip c \<noteq> []" by simp
  from emit_chunks_enumerate [OF this, of rp fp "detect_file_type fp" 0 "[]"] out
  have "out = map (mk_chunk rp fp (detect_file_type fp)) (enumerate 0 cs)" by simp
  with cs show ?thesis by blast
qed

section \<open>Properties of the context budget\<close>

text \<open>
  Claim C4. The budget is non-increasing in the answer budget, never below 1024, and equals
  \<open>max(256, n_ctx - max_answer_tokens - overhead)\<close> tokens at 4 characters per token,
  floored at 1024 characters. The statement is proved for the default overhead of 400
  (the two-argument call) and for every explicit overhead.
\<close>

theorem allowed_context_chars_budget:
  "(a1 \<le> a2 \<longrightarrow> allowed_context_chars2 n_ctx a2 \<le> allowed_context_chars2 n_ctx a1)
   \<and> (a1 \<le> a2 \<longrightarrow> allowed_context_chars n_ctx a2 ov \<le> allowed_context_chars n_ctx a1 ov)
   \<and> 1024 \<le> allowed_context_chars2 n_ctx a
   \<and> 1024 \<le> allowed_context_chars n_ctx a ov
   \<and> allowed_context_chars2 n_ctx a = max 1024 (4 * max 256 (n_ctx - a - 400))
   \<and> allowed_context_chars n_ctx a ov = max 1024 (4 * max 256 (n_ctx - a - ov))"
  by (auto simp: allowed_context_chars2_def allowed_context_chars_def TOKEN_TO_CHAR_def Let_def)

theorem allowed_context_chars_budget_witness:
  "(100::int) \<le> 400
   \<and> allowed_context_chars2 4096 400 \<le> allowed_context_chars2 4096 100
   \<and> allowed_context_chars2 4096 100 = 14384
   \<and> allowed_context_chars2 4096 400 = 13184
   \<and> allowed_context_chars2 512 400 = 1024"
  using allowed_context_chars_budget [of 100 400 4096 400 400]
        allowed_context_chars_budget [of 100 400 4096 400 100]
        allowed_context_chars_budget [of 100 400 512 400 400]
  by simp

section \<open>Properties of the chunker\<close>

lemmas eval_defs =
  chunk_by_char_def chunk_windows_def TOKEN_TO_CHAR_def chunk_loop.simps u_def py_slice_def
  slice_index_def strip_chunks_def py_strip_def py_lstrip_def py_rstrip_def isspace_def
  Let_def chunk_file_def normalize_text_def detect_file_type_def splitext_ext_def
  py_lower_def lower_char_def split_code_by_defs_def starter_match_def heading_match_def

lemma chunk_by_char_diverges:
  assumes "0 < cst" and "cst \<le> ovt" and "cst * 4 < int (length t)"
  shows "chunk_by_char t cst ovt = None"
proof -
  from assms have "t \<noteq> []" by auto
  moreover have "chunk_loop t (cst * 4) (ovt * 4) 0 [] = None"
    using assms by (intro chunk_loop_diverges) simp_all
  ultimately show ?thesis
    using assms by (simp add: chunk_by_char_def TOKEN_TO_CHAR_def Let_def)
qed

text \<open>
  Claim C2. For \<open>chunk_size_tokens > 0\<close> and \<open>0 \<le> overlap_tokens < chunk_size_tokens\<close>
  the call returns: the loop ends with a list of windows, whose stripped non-blank members
  are the result; and for a non-empty text the last window taken is a non-empty suffix
  \<open>text[s:]\<close> of the text, so it ends exactly at the end of the text.
\<close>

theorem chunk_by_char_forward_progress:
  assumes "0 < cst" and "0 \<le> ovt" and "ovt < cst"
  shows "\<exists>ws. chunk_windows t cst ovt = Some ws
           \<and> chunk_by_char t cst ovt = Some (Inr (strip_chunks ws))
           \<and> (t \<noteq> [] \<longrightarrow> ws \<noteq> [] \<and> (\<exists>s<length t. last ws = drop s t))"
proof -
  from assms have "0 < cst * 4" and "ovt * 4 < cst * 4" and ov: "0 \<le> ovt * 4" by simp_all
  from chunk_loop_returns [OF this(1,2), of 0 t "[]"]
  obtain ws where r: "chunk_loop t (cst * 4) (ovt * 4) 0 [] = Some ws"
    and l: "0 \<le> ovt * 4 \<and> 0 < int (length t)
             \<longrightarrow> ws \<noteq> [] \<and> (\<exists>s<length t. last ws = drop s t)"
    by auto
  have w: "chunk_windows t cst ovt = Some ws"
    using r by (simp add: chunk_windows_def TOKEN_TO_CHAR_def)
  have c: "chunk_by_char t cst ovt = Some (Inr (strip_chunks ws))"
  proof (cases "t = []")
    case True
    with r have "ws = []" by (subst (asm) chunk_loop.simps) simp
    with True show ?thesis by (simp add: chunk_by_char_def strip_chunks_def)
  next
    case False
    with assms r show ?thesis by (simp add: chunk_by_char_def TOKEN_TO_CHAR_def Let_def)
  qed
  have "t \<noteq> [] \<longrightarrow> ws \<noteq> [] \<and> (\<exists>s<length t. last ws = drop s t)"
    using l ov by simp
  with w c show ?thesis by blast
qed

theorem chunk_by_char_forward_progress_witness:
  "(0::int) < 2 \<and> (0::int) \<le> 1 \<and> (1::int) < 2
   \<and> chunk_windows (u ''abcdefghi  jklmnop'') 2 1
       = Some [u ''abcdefgh'', u ''efghi  j'', u ''i  jklmn'', u ''klmnop'']
   \<and> chunk_by_char (u ''abcdefghi  jklmnop'') 2 1
       = Some (Inr [u ''abcdefgh'', u ''efghi  j'', u ''i  jklmn'', u ''klmnop''])
   \<and> u ''klmnop'' = drop 12 (u ''abcdefghi  jklmnop'')"
  using chunk_by_char_forward_progress [of 2 1 "u ''abcdefghi  jklmnop''"]
  by (simp add: eval_defs)

text \<open>
  Claim C5. Nothing rejects or clamps an overlap that is not smaller than the chunk size:
  with \<open>chunk_size_tokens = overlap_tokens = 1\<close> and a text of five characters the loop
  takes the window \<open>[0, 4)\<close> again and again and the call never returns. The same
  happens for every text longer than one chunk (\<open>chunk_by_char_diverges\<close>).
\<close>

theorem chunk_by_char_overlap_never_returns:
  "chunk_by_char (u ''abcde'') 1 1 = None \<and> chunk_by_char (u ''abcde'') 1 2 = None"
  using chunk_by_char_diverges [of 1 1 "u ''abcde''"]
        chunk_by_char_diverges [of 1 2 "u ''abcde''"]
  by (simp add: u_def)

text \<open>
  Claim C6, as stated, fails at the empty text: the guard \<^verbatim>\<open>if not text: return []\<close>
  comes before the check of the chunk size, so the empty text gives the empty list for a
  chunk size of zero or below.
\<close>

theorem chunk_by_char_empty_text_not_validated:
  "chunk_by_char [] 0 200 = Some (Inr [])
   \<and> chunk_by_char [] 0 200 \<noteq> Some (Inl ValueError)
   \<and> chunk_by_char [] (- 5) 200 = Some (Inr [])"
  by (simp add: chunk_by_char_def TOKEN_TO_CHAR_def)

text \<open>
  Claim C6, amended. For \<open>chunk_size_tokens \<le> 0\<close> every non-empty text is rejected
  with the \<^verbatim>\<open>ValueError\<close> of the input validation, and the empty text gives the empty
  list, whatever the overlap.
\<close>

theorem chunk_by_char_rejects_nonpositive_size:
  assumes "cst \<le> 0"
  shows "chunk_by_char t cst ovt = (if t = [] then Some (Inr []) else Some (Inl ValueError))"
  using assms by (simp add: chunk_by_char_def TOKEN_TO_CHAR_def Let_def)

theorem chunk_by_char_rejects_nonpositive_size_witness:
  "(0::int) \<le> 0 \<and> (- 5::int) \<le> 0
   \<and> chunk_by_char (u ''a'') 0 200 = Some (Inl ValueError)
   \<and> chunk_by_char (u ''some text'') (- 5) 200 = Some (Inl ValueError)"
  using chunk_by_char_rejects_nonpositive_size [of 0 "u ''a''" 200]
        chunk_by_char_rejects_nonpositive_size [of "- 5" "u ''some text''" 200]
  by (simp add: u_def)

text \<open>
  Claim C7. Whatever \<open>chunk_file\<close> returns, the chunk at position \<open>i\<close> carries
  \<open>chunk_index = i\<close> (0-based, increasing by one, no gap), under the repo and the path
  of the call.
\<close>

theorem chunk_file_index_gap_free:
  assumes "chunk_file cont rp fp cst ovt = Some (Inr out)"
  shows "\<forall>i<length out. chunk_index (metadata (out ! i)) = int i
           \<and> repo (metadata (out ! i)) = rp \<and> file_path (metadata (out ! i)) = fp"
proof -
  from chunk_file_shape [OF assms] obtain cs where
    "out = map (mk_chunk rp fp (detect_file_type fp)) (enumerate 0 cs)" by blast
  then show ?thesis by (simp add: mk_chunk_def nth_enumerate_eq)
qed

text \<open>
  Claim C10. For \<open>chunk_size_tokens > 0\<close> and \<open>overlap_tokens < chunk_size_tokens\<close>
  the call returns, and every chunk it emits has at most \<open>chunk_size_tokens * 4\<close>
  characters, on the markdown path, the code path and the plain path alike.
\<close>

theorem chunk_file_chunk_size_bound:
  assumes "0 < cst" and "ovt < cst"
  shows "\<exists>out. chunk_file cont rp fp cst ovt = Some (Inr out)
           \<and> (\<forall>c\<in>set out. int (length (content c)) \<le> cst * 4)"
proof -
  from file_chunks_returns [OF assms, of cont fp]
  obtain cs where cs: "file_chunks cont fp cst ovt = Some (Inr cs)"
    and b: "\<forall>c\<in>set cs. int (length c) \<le> cst * 4" by blast
  let ?out = "emit_chunks rp fp (detect_file_type fp) 0 cs []"
  have r: "chunk_file cont rp fp cst ovt = Some (Inr ?out)"
    using cs by (simp add: chunk_file_unfold)
  from chunk_file_shape [OF r] cs
  have "?out = map (mk_chunk rp fp (detect_file_type fp)) (enumerate 0 cs)" by simp
  then have "content ` set ?out \<subseteq> set cs"
    by (auto simp: mk_chunk_def enumerate_eq_zip dest: set_zip_rightD)
  with b have "\<forall>c\<in>set ?out. int (length (content c)) \<le> cst * 4" by blast
  with r show ?thesis by blast
qed

theorem chunk_file_chunk_size_bound_witness:
  "(0::int) < 1 \<and> (0::int) < 1
   \<and> chunk_file (u ''x'' @ [NL] @ u ''## A  bcdefg'' @ [NL, NL] @ u ''# B #x'')
         (u ''r'') (u ''a.MD'') 1 0
       = Some (Inr (map (mk_chunk (u ''r'') (u ''a.MD'') Markdown)
                      [(0, u ''x''), (1, u ''A  b''), (2, u ''cdef''), (3, u ''g''),
                       (4, u ''B #x'')]))
   \<and> list_all (\<lambda>c. int (length c) \<le> 1 * 4) [u ''x'', u ''A  b'', u ''cdef'', u ''g'', u ''B #x'']"
  using chunk_file_chunk_size_bound [of 1 0
      "u ''x'' @ [NL] @ u ''## A  bcdefg'' @ [NL, NL] @ u ''# B #x''" "u ''r''" "u ''a.MD''"]
  by (simp add: eval_defs mk_chunk_def)

text \<open>
  The witness of C7 is the scenario of the specification: a Python file of two functions
  gives two chunks, with the indices 0 and 1.
\<close>

theorem chunk_file_index_gap_free_witness:
  "chunk_file (u ''def f():'' @ [NL] @ u ''    pass'' @ [NL, NL] @ u ''def g():'' @ [NL]
                 @ u ''    pass'' @ [NL]) (u ''r'') (u ''a.py'') 1000 200
     = Some (Inr (map (mk_chunk (u ''r'') (u ''a.py'') Code)
                    [(0, u ''def f():'' @ [NL] @ u ''    pass''),
                     (1, u ''def g():'' @ [NL] @ u ''    pass'')]))
   \<and> map (\<lambda>c. chunk_index (metadata c))
         (map (mk_chunk (u ''r'') (u ''a.py'') Code)
            [(0, u ''def f():'' @ [NL] @ u ''    pass''),
             (1, u ''def g():'' @ [NL] @ u ''    pass'')]) = [0, 1]"
proof -
  let ?out = "map (mk_chunk (u ''r'') (u ''a.py'') Code)
                [(0, u ''def f():'' @ [NL] @ u ''    pass''),
                 (1, u ''def g():'' @ [NL] @ u ''    pass'')]"
  have e: "chunk_file (u ''def f():'' @ [NL] @ u ''    pass'' @ [NL, NL] @ u ''def g():'' @ [NL]
                 @ u ''    pass'' @ [NL]) (u ''r'') (u ''a.py'') 1000 200 = Some (Inr ?out)"
    by (simp add: eval_defs mk_chunk_def)
  note g = chunk_file_index_gap_free [OF e, rule_format, THEN conjunct1]
  have "chunk_index (metadata (?out ! 0)) = int 0" by (rule g) simp
  moreover have "chunk_index (metadata (?out ! 1)) = int 1" by (rule g) simp
  ultimately have "map (\<lambda>c. chunk_index (metadata c)) ?out = [0, 1]" by simp
  with e show ?thesis by blast
qed

section \<open>Properties of the context assembler\<close>

lemma py_join_length:
  "bs \<noteq> [] \<Longrightarrow> int (length (py_join sep bs))
     = (\<Sum>b\<leftarrow>bs. int (length b)) + int (length sep) * (int (length bs) - 1)"
  by (induction sep bs rule: py_join.induct) (simp_all add: algebra_simps)

lemma charged_Cons: "charged (b # bs) = int (length b) + 2 + charged bs"
  by (simp add: charged_def)

lemma charged_sum: "charged bs = (\<Sum>b\<leftarrow>bs. int (length b)) + 2 * int (length bs)"
  by (induction bs) (simp_all add: charged_def)

lemma build_loop_prefix:
  "\<exists>n\<le>length rs.
     build_loop m rs i parts tot = parts @ take n (blocks_from i rs)
     \<and> (0 < n \<longrightarrow> tot + charged (take n (blocks_from i rs)) \<le> m)
     \<and> (n < length rs \<longrightarrow> m < tot + charged (take (Suc n) (blocks_from i rs)))"
proof (induction rs arbitrary: i parts tot)
  case Nil
  then show ?case by simp
next
  case (Cons r rs)
  let ?b = "render_block i r"
  show ?case
  proof (cases "tot + int (length ?b) + 2 > m")
    case True
    then have "build_loop m (r # rs) i parts tot = parts @ take 0 (blocks_from i (r # rs))"
      by (simp add: Let_def)
    moreover have "m < tot + charged (take (Suc 0) (blocks_from i (r # rs)))"
      using True by (simp add: charged_def)
    ultimately show ?thesis by (intro exI [of _ 0]) simp
  next
    case False
    from Cons.IH [of "i + 1" "parts @ [?b]" "tot + (int (length ?b) + 2)"]
    obtain n where n: "n \<le> length rs"
      and eq: "build_loop m rs (i + 1) (parts @ [?b]) (tot + (int (length ?b) + 2))
                 = (parts @ [?b]) @ take n (blocks_from (i + 1) rs)"
      and le: "0 < n \<longrightarrow> tot + (int (length ?b) + 2) + charged (take n (blocks_from (i + 1) rs)) \<le> m"
      and gt: "n < length rs \<longrightarrow>
                 m < tot + (int (length ?b) + 2) + charged (take (Suc n) (blocks_from (i + 1) rs))"
      by blast
    have 1: "build_loop m (r # rs) i parts tot = parts @ take (Suc n) (blocks_from i (r # rs))"
      using False eq by (simp add: Let_def)
    have 2: "tot + charged (take (Suc n) (blocks_from i (r # rs))) \<le> m"
    proof (cases "n = 0")
      case True
      with False show ?thesis by (simp add: charged_def)
    next
      case nz: False
      with le show ?thesis by (simp add: charged_Cons add.assoc)
    qed
    have 3: "Suc n < length (r # rs) \<longrightarrow>
               m < tot + charged (take (Suc (Suc n)) (blocks_from i (r # rs)))"
      using gt by (simp add: charged_Cons add.assoc)
    from n 1 2 3 show ?thesis by (intro exI [of _ "Suc n"]) simp
  qed
qed

lemma length_blocks_from: "length (blocks_from i rs) = length rs"
  by (induction rs arbitrary: i) simp_all

lemma separator_length: "length separator = 7"
  by (simp add: separator_def u_def)

lemmas ctx_eval =
  build_context_def render_block_def dict_get_def str_int_def str_nat.simps separator_def
  u_def py_strip_def py_lstrip_def py_rstrip_def isspace_def Let_def charged_def
  sample_row_def

text \<open>
  Claim C1, as stated, fails: the loop charges 2 characters for each block, and the
  separator that joins two blocks has 7. Two blocks of 31 characters are charged 66 and
  fit a budget of 66, and the string returned has 69 characters.
\<close>

theorem build_context_exceeds_max_chars:
  "length (build_context [sample_row, sample_row] 66) = 69
   \<and> \<not> int (length (build_context [sample_row, sample_row] 66)) \<le> 66"
  by (simp add: ctx_eval)

text \<open>
  Claim C1, amended. The string returned is the rendered blocks of a prefix of the
  results, in rank order, joined by the separator, every block whole. The prefix is the
  longest one whose charge, the length of each block plus 2, stays within \<open>max_chars\<close>:
  the charge of a non-empty prefix taken is at most \<open>max_chars\<close>, and the next block, when
  there is one, would take the charge above \<open>max_chars\<close>. The length of the string is the
  charge plus \<open>5 * n - 7\<close> for \<open>n > 0\<close> blocks, and so at most \<open>max_chars + 5 * n - 7\<close>.
\<close>

theorem build_context_prefix:
  "\<exists>n\<le>length results.
     build_context results max_chars = py_join separator (take n (blocks_from 1 results))
     \<and> (0 < n \<longrightarrow> charged (take n (blocks_from 1 results)) \<le> max_chars)
     \<and> (n < length results
          \<longrightarrow> max_chars < charged (take (Suc n) (blocks_from 1 results)))
     \<and> (0 < n \<longrightarrow> int (length (build_context results max_chars))
                      = charged (take n (blocks_from 1 results)) + 5 * int n - 7)"
proof -
  from build_loop_prefix [of results max_chars 1 "[]" 0]
  obtain n where n: "n \<le> length results"
    and eq: "build_loop max_chars results 1 [] 0 = take n (blocks_from 1 results)"
    and le: "0 < n \<longrightarrow> charged (take n (blocks_from 1 results)) \<le> max_chars"
    and gt: "n < length results \<longrightarrow> max_chars < charged (take (Suc n) (blocks_from 1 results))"
    by auto
  let ?bs = "take n (blocks_from 1 results)"
  have bc: "build_context results max_chars = py_join separator ?bs"
    using eq by (simp add: build_context_def)
  have "0 < n \<longrightarrow> int (length (py_join separator ?bs)) = charged ?bs + 5 * int n - 7"
  proof
    assume pos: "0 < n"
    have len: "length ?bs = n" using n by (simp add: length_blocks_from)
    with pos have "?bs \<noteq> []" by auto
    from py_join_length [OF this, of separator] len
    show "int (length (py_join separator ?bs)) = charged ?bs + 5 * int n - 7"
      by (simp add: charged_sum separator_length)
  qed
  with n bc le gt show ?thesis by auto
qed

theorem build_context_prefix_witness:
  "build_context [sample_row, sample_row, sample_row] 66
     = py_join separator (take 2 (blocks_from 1 [sample_row, sample_row, sample_row]))
   \<and> (0::nat) < 2 \<and> (2::nat) < length [sample_row, sample_row, sample_row]
   \<and> charged (take 2 (blocks_from 1 [sample_row, sample_row, sample_row])) = 66
   \<and> charged (take (Suc 2) (blocks_from 1 [sample_row, sample_row, sample_row])) = 99
   \<and> int (length (build_context [sample_row, sample_row, sample_row] 66)) = 66 + 5 * 2 - 7"
  using build_context_prefix [of "[sample_row, sample_row, sample_row]" 66]
  by (simp add: ctx_eval)

section \<open>Properties of the indexer\<close>







text \<open>
  The error paths of the run: without \<^verbatim>\<open>chromadb\<close> the call raises the
  \<^verbatim>\<open>RuntimeError\<close>, and when neither the persistent nor the in-memory collection can be
  opened it raises the exception of the library; in both cases nothing is stored or
  logged. The creation of the in-memory collection has no handler, unlike the creation of
  the persistent one: when it raises (the name is taken already, say), the run ends
  there (\<open>fallback_create_raises\<close>). Fallback mode is the case \<open>open_collection be = Inr True\<close>.
\<close>

lemma process_and_store_not_opened:
  "\<not> import_ok be \<Longrightarrow> process_and_store be chunks batch_size st = (Inl RuntimeError, st)"
  "import_ok be \<Longrightarrow> open_collection be = Inl e \<Longrightarrow>
     process_and_store be chunks batch_size st = (Inl e, st)"
  by (simp_all add: process_and_store_def)

lemma fallback_create_raises:
  assumes "import_ok be" and "\<not> persistent_client_ok be" and "\<not> memory_create_ok be"
  shows "process_and_store be chunks batch_size st = (Inl ChromaError, st)"
  using assms by (simp add: process_and_store_def open_collection_def)

lemma open_collection_fallback:
  "open_collection be = Inr True \<longleftrightarrow>
     \<not> (persistent_client_ok be \<and> (persistent_create_ok be \<or> persistent_get_ok be))
     \<and> memory_client_ok be \<and> memory_create_ok be"
  by (simp add: open_collection_def)







section \<open>Properties of the retry loop\<close>

lemmas retry_eval = call_backend_def retry_loop.simps attempt_fails_def Let_def

lemma retry_loop_attempts:
  "Suc attempts \<le> fst (snd (retry_loop post attempts backoff sleeps))"
proof (induction post attempts backoff sleeps rule: retry_loop.induct)
  case (1 post attempts backoff sleeps)
  show ?case
  proof (cases "attempt_fails (post (attempts + 1)) \<and> \<not> 3 \<le> attempts + 1")
    case True
    then have "retry_loop post attempts backoff sleeps
                 = retry_loop post (attempts + 1) (backoff * 2) (sleeps @ [backoff])"
      by (subst retry_loop.simps) (simp add: Let_def)
    moreover have "Suc (attempts + 1)
        \<le> fst (snd (retry_loop post (attempts + 1) (backoff * 2) (sleeps @ [backoff])))"
      using True by (intro "1.IH") auto
    ultimately show ?thesis by simp
  next
    case False
    then show ?thesis by (subst retry_loop.simps) (auto simp: Let_def)
  qed
qed

lemma every_failure_retried:
  assumes "attempt_fails (post 1)"
  shows "2 \<le> fst (snd (call_backend post))"
proof -
  have "call_backend post = retry_loop post (0 + 1) (1 * 2) ([] @ [1])"
    unfolding call_backend_def using assms by (subst retry_loop.simps) (simp add: Let_def)
  moreover have "Suc (0 + 1) \<le> fst (snd (retry_loop post (0 + 1) (1 * 2) ([] @ [1])))"
    by (rule retry_loop_attempts)
  ultimately show ?thesis by simp
qed

text \<open>
  Claim C9. The \<^verbatim>\<open>except Exception\<close> of the loop catches every failure of an attempt, so
  every failure is retried, not the transient ones only: a backend that answers 404 (or
  401, or whose call raises) is called three times, with sleeps of 1 and 2 seconds, before
  the error reaches the caller, and a 404 followed by a 200 ends in success. A failure of
  the first attempt always leads to a second call (\<open>every_failure_retried\<close>).
\<close>

theorem retry_on_non_transient_failure:
  "call_backend (\<lambda>k. Response 404) = (Inl RuntimeError, 3, [1, 2])
   \<and> call_backend (\<lambda>k. Response 401) = (Inl RuntimeError, 3, [1, 2])
   \<and> call_backend (\<lambda>k. PostError) = (Inl RuntimeError, 3, [1, 2])
   \<and> call_backend (\<lambda>k. if k = 1 then Response 404 else Response 200)
       = (Inr (Response 200), 2, [1])
   \<and> call_backend (\<lambda>k. Response 503) = (Inl RuntimeError, 3, [1, 2])"
  by (simp add: retry_eval)

end
